theory Spec2Isabelle
  imports Main "HOL-Library.Sublist"
begin

section \<open>The camera capture page (src/app/page.tsx)\<close>

text \<open>
  The page is one React component, \<open>Home\<close>, with three \<open>useState\<close> slices (the active
  media stream, the error message, the list of captured images) and one ref to the
  \<open>video\<close> element. Every handler is modelled as a function from the component's state
  to its next state; what a handler reads from the browser (the clock, the canvas, the
  outcome of \<open>getUserMedia\<close>) is an argument of the model.
\<close>

subsection \<open>Data\<close>

text \<open>
  \<open>interface CapturedImage\<close> (lines 6-11). The field \<open>id\<close> is called \<open>id_img\<close> here,
  since \<open>id\<close> is the identity function of HOL. \<open>timestamp\<close> holds a value of
  \<open>Date.now()\<close>, an integral number of milliseconds.
\<close>

record CapturedImage =
  id_img :: string
  dataUrl :: string
  selected :: bool
  timestamp :: int

text \<open>
  A \<open>MediaStream\<close> is an opaque browser object; the page only compares it with \<open>null\<close>
  and asks for its tracks. Equality of the model's values stands for the identity of
  the objects.
\<close>

type_synonym MediaStreamTrack = nat

datatype MediaStream = MediaStream (streamId: nat) (getTracks: "MediaStreamTrack list")

text \<open>The \<open>video\<close> element behind \<open>videoRef\<close>: the page writes its \<open>srcObject\<close>.\<close>

record HTMLVideoElement =
  srcObject :: "MediaStream option"

text \<open>
  The component's state (lines 14-17). Two fields are not React state but record what
  the handlers do to the world around them: \<open>pending\<close> counts the calls of
  \<open>getUserMedia\<close> whose promise is not settled yet (each one is a suspended
  \<open>startCamera\<close>), and \<open>stoppedTracks\<close> lists the calls of \<open>track.stop()\<close> in order.
\<close>

record ViewState =
  stream :: "MediaStream option"
  error :: "string option"
  capturedImages :: "CapturedImage list"
  videoRef :: "HTMLVideoElement option"
  pending :: nat
  stoppedTracks :: "MediaStreamTrack list"

definition initialState :: ViewState where
  "initialState =
     \<lparr>stream = None, error = None, capturedImages = [], videoRef = None,
      pending = 0, stoppedTracks = []\<rparr>"

subsection \<open>Number to string\<close>

text \<open>
  The template literal \<open>`img-${Date.now()}`\<close> (line 51) converts an integral number to
  its decimal numeral, with a leading minus sign below zero. Values of \<open>Date.now()\<close>
  are far below \<open>10^21\<close>, where JavaScript would switch to exponent notation.
\<close>

definition digit_char :: "nat \<Rightarrow> char" where
  "digit_char d = ''0123456789'' ! d"

fun digits :: "nat \<Rightarrow> string" where
  "digits n = (if n < 10 then [digit_char n] else digits (n div 10) @ [digit_char (n mod 10)])"

declare digits.simps [simp del]

definition number_toString :: "int \<Rightarrow> string" where
  "number_toString i = (if i < 0 then CHR ''-'' # digits (nat (- i)) else digits (nat i))"

subsection \<open>Acquiring and releasing the camera\<close>

text \<open>
  The message of line 29, as the bytes of its UTF-8 encoding (the source text is
  Japanese: access to the camera failed, check the settings of the browser).
\<close>

definition cameraErrorMessage :: string where
  "cameraErrorMessage =
     [CHR 0xE3, CHR 0x82, CHR 0xAB, CHR 0xE3, CHR 0x83, CHR 0xA1, CHR 0xE3, CHR 0x83, CHR 0xA9,
      CHR 0xE3, CHR 0x81, CHR 0xB8, CHR 0xE3, CHR 0x81, CHR 0xAE, CHR 0xE3, CHR 0x82, CHR 0xA2,
      CHR 0xE3, CHR 0x82, CHR 0xAF, CHR 0xE3, CHR 0x82, CHR 0xBB, CHR 0xE3, CHR 0x82, CHR 0xB9,
      CHR 0xE3, CHR 0x81, CHR 0xAB, CHR 0xE5, CHR 0xA4, CHR 0xB1, CHR 0xE6, CHR 0x95, CHR 0x97,
      CHR 0xE3, CHR 0x81, CHR 0x97, CHR 0xE3, CHR 0x81, CHR 0xBE, CHR 0xE3, CHR 0x81, CHR 0x97,
      CHR 0xE3, CHR 0x81, CHR 0x9F, CHR 0xE3, CHR 0x80, CHR 0x82, CHR 0xE3, CHR 0x83, CHR 0x96,
      CHR 0xE3, CHR 0x83, CHR 0xA9, CHR 0xE3, CHR 0x82, CHR 0xA6, CHR 0xE3, CHR 0x82, CHR 0xB6,
      CHR 0xE3, CHR 0x81, CHR 0xAE, CHR 0xE8, CHR 0xA8, CHR 0xAD, CHR 0xE5, CHR 0xAE, CHR 0x9A,
      CHR 0xE3, CHR 0x82, CHR 0x92, CHR 0xE7, CHR 0xA2, CHR 0xBA, CHR 0xE8, CHR 0xAA, CHR 0x8D,
      CHR 0xE3, CHR 0x81, CHR 0x97, CHR 0xE3, CHR 0x81, CHR 0xA6, CHR 0xE3, CHR 0x81, CHR 0x8F,
      CHR 0xE3, CHR 0x81, CHR 0xA0, CHR 0xE3, CHR 0x81, CHR 0x95, CHR 0xE3, CHR 0x81, CHR 0x84,
      CHR 0xE3, CHR 0x80, CHR 0x82]"

text \<open>
  \<open>startCamera\<close> (lines 19-32) is an \<open>async\<close> function: it runs up to the \<open>await\<close> when
  the button is clicked, and its rest runs when the promise of \<open>getUserMedia\<close> settles.
  Other handlers can run in between, so the model has one function for each part.
\<close>

definition startCamera_begin :: "ViewState \<Rightarrow> ViewState" where
  "startCamera_begin s = s\<lparr>error := None, pending := pending s + 1\<rparr>"

definition startCamera_resolved :: "MediaStream \<Rightarrow> ViewState \<Rightarrow> ViewState" where
  "startCamera_resolved mediaStream s = s\<lparr>stream := Some mediaStream, pending := pending s - 1\<rparr>"

definition startCamera_rejected :: "ViewState \<Rightarrow> ViewState" where
  "startCamera_rejected s = s\<lparr>error := Some cameraErrorMessage, pending := pending s - 1\<rparr>"

text \<open>\<open>stopCamera\<close> (lines 34-39).\<close>

definition stopCamera :: "ViewState \<Rightarrow> ViewState" where
  "stopCamera s =
     (case stream s of
        Some m \<Rightarrow> s\<lparr>stoppedTracks := stoppedTracks s @ getTracks m, stream := None\<rparr>
      | None \<Rightarrow> s)"

subsection \<open>Capturing a frame\<close>

text \<open>
  What one call of \<open>captureImage\<close> reads from the browser: whether
  \<open>canvas.getContext("2d")\<close> gave a context (it may return \<open>null\<close>), the data URL that
  \<open>canvas.toDataURL\<close> returns, and the two values of \<open>Date.now()\<close>, first the one in
  the id, then the one of the timestamp.
\<close>

record CaptureEnv =
  context2d :: bool
  toDataURL :: string
  nowId :: int
  nowTimestamp :: int

definition newImage :: "CaptureEnv \<Rightarrow> CapturedImage" where
  "newImage env =
     \<lparr>id_img = ''img-'' @ number_toString (nowId env),
      dataUrl = toDataURL env,
      selected = False,
      timestamp = nowTimestamp env\<rparr>"

text \<open>\<open>captureImage\<close> (lines 41-59).\<close>

definition captureImage :: "CaptureEnv \<Rightarrow> ViewState \<Rightarrow> ViewState" where
  "captureImage env s =
     (case videoRef s of
        Some video \<Rightarrow>
          (if context2d env
           then s\<lparr>capturedImages := capturedImages s @ [newImage env]\<rparr>
           else s)
      | None \<Rightarrow> s)"

subsection \<open>Selecting and deleting\<close>

text \<open>\<open>toggleImageSelection\<close> (lines 61-67).\<close>

definition toggleImageSelection :: "string \<Rightarrow> ViewState \<Rightarrow> ViewState" where
  "toggleImageSelection i s =
     s\<lparr>capturedImages :=
         map (\<lambda>img. if id_img img = i then img\<lparr>selected := \<not> selected img\<rparr> else img)
           (capturedImages s)\<rparr>"

text \<open>\<open>deleteSelectedImages\<close> (lines 69-71).\<close>

definition deleteSelectedImages :: "ViewState \<Rightarrow> ViewState" where
  "deleteSelectedImages s =
     s\<lparr>capturedImages := filter (\<lambda>img. \<not> selected img) (capturedImages s)\<rparr>"

text \<open>
  The button that deletes the selection is rendered when the gallery is not empty and
  some image is selected (lines 146 and 150).
\<close>

definition showDeleteButton :: "ViewState \<Rightarrow> bool" where
  "showDeleteButton s =
     (length (capturedImages s) > 0 \<and> list_ex selected (capturedImages s))"

subsection \<open>Rendering and events\<close>

text \<open>
  After a handler has run, React renders the component again and runs its effects
  before the next event is handled. The \<open>video\<close> element is rendered exactly when
  \<open>stream\<close> is set (lines 102-116), so \<open>videoRef.current\<close> is the element then and
  \<open>null\<close> otherwise; the first effect (lines 73-77) binds the stream to the element.
  The cleanup of the second effect (lines 79-85) runs when \<open>stream\<close> has changed, and
  stops the tracks of the stream of the previous render.
\<close>

definition cleanup :: "ViewState \<Rightarrow> ViewState \<Rightarrow> ViewState" where
  "cleanup prev s =
     (if stream s \<noteq> stream prev
      then (case stream prev of
              Some m \<Rightarrow> s\<lparr>stoppedTracks := stoppedTracks s @ getTracks m\<rparr>
            | None \<Rightarrow> s)
      else s)"

definition render :: "ViewState \<Rightarrow> ViewState" where
  "render s =
     s\<lparr>videoRef := (case stream s of
                      Some m \<Rightarrow> Some \<lparr>srcObject = Some m\<rparr>
                    | None \<Rightarrow> None)\<rparr>"

definition commit :: "ViewState \<Rightarrow> ViewState \<Rightarrow> ViewState" where
  "commit prev s = render (cleanup prev s)"

text \<open>The events of the page: the clicks, and the two ways a pending acquisition settles.\<close>

datatype event =
    StartBegin
  | StartResolve MediaStream
  | StartReject
  | Stop
  | Capture CaptureEnv
  | Toggle string
  | Delete

fun handler :: "event \<Rightarrow> ViewState \<Rightarrow> ViewState" where
  "handler StartBegin s = startCamera_begin s"
| "handler (StartResolve m) s = startCamera_resolved m s"
| "handler StartReject s = startCamera_rejected s"
| "handler Stop s = stopCamera s"
| "handler (Capture env) s = captureImage env s"
| "handler (Toggle i) s = toggleImageSelection i s"
| "handler Delete s = deleteSelectedImages s"

definition step :: "event \<Rightarrow> ViewState \<Rightarrow> ViewState" where
  "step e s = commit s (handler e s)"

fun run :: "event list \<Rightarrow> ViewState \<Rightarrow> ViewState" where
  "run [] s = s"
| "run (e # es) s = run es (step e s)"

text \<open>
  Which events the rendered page offers in a state: the start button is there while
  \<open>stream\<close> is \<open>null\<close> (lines 120-126), the capture and stop buttons while it is set
  (lines 128-141), a tile for each image of the gallery (lines 160-163), the delete
  button as in \<open>showDeleteButton\<close>; an acquisition settles only if one is pending.
\<close>

fun enabled :: "event \<Rightarrow> ViewState \<Rightarrow> bool" where
  "enabled StartBegin s = (stream s = None)"
| "enabled (StartResolve m) s = (pending s > 0)"
| "enabled StartReject s = (pending s > 0)"
| "enabled Stop s = (stream s \<noteq> None)"
| "enabled (Capture env) s = (stream s \<noteq> None)"
| "enabled (Toggle i) s = (i \<in> set (map id_img (capturedImages s)))"
| "enabled Delete s = showDeleteButton s"

fun ui_trace :: "event list \<Rightarrow> ViewState \<Rightarrow> bool" where
  "ui_trace [] s = True"
| "ui_trace (e # es) s = (enabled e s \<and> ui_trace es (step e s))"

text \<open>
  A trace in which no acquisition is begun while another one is pending: every
  \<open>startCamera\<close> has settled before the start button is clicked again.
\<close>

fun no_overlap :: "event list \<Rightarrow> ViewState \<Rightarrow> bool" where
  "no_overlap [] s = True"
| "no_overlap (e # es) s =
     ((e = StartBegin \<longrightarrow> pending s = 0) \<and> no_overlap es (step e s))"

text \<open>
  The invariant of the acquisition lifecycle when acquisitions do not overlap: at most
  one is pending, the stream and the error are not both set, and neither is set while
  one is pending.
\<close>

definition lifecycle_inv :: "ViewState \<Rightarrow> bool" where
  "lifecycle_inv s =
     (pending s \<le> 1 \<and> (stream s = None \<or> error s = None) \<and>
      (pending s > 0 \<longrightarrow> stream s = None \<and> error s = None))"

text \<open>
  The scenario of a session: the camera starts, two frames are captured, the tile of
  the first image of the gallery is clicked, the selection is deleted.
\<close>

definition scenario :: "MediaStream \<Rightarrow> CaptureEnv \<Rightarrow> CaptureEnv \<Rightarrow> ViewState" where
  "scenario m e1 e2 =
     (let s = run [StartBegin, StartResolve m, Capture e1, Capture e2] initialState
      in run [Toggle (id_img (hd (capturedImages s))), Delete] s)"

subsection \<open>Concrete inputs\<close>

definition exampleStream :: MediaStream where
  "exampleStream = MediaStream 1 [7]"

definition exampleEnv :: CaptureEnv where
  "exampleEnv =
     \<lparr>context2d = True, toDataURL = ''data:image/jpeg;base64,AAAA'',
      nowId = 1700000000000, nowTimestamp = 1700000000000\<rparr>"

text \<open>A later capture, and a capture in the same millisecond as \<open>exampleEnv\<close>.\<close>

definition exampleEnvLater :: CaptureEnv where
  "exampleEnvLater =
     \<lparr>context2d = True, toDataURL = ''data:image/jpeg;base64,BBBB'',
      nowId = 1700000000016, nowTimestamp = 1700000000016\<rparr>"

definition exampleEnvSameTick :: CaptureEnv where
  "exampleEnvSameTick =
     \<lparr>context2d = True, toDataURL = ''data:image/jpeg;base64,BBBB'',
      nowId = 1700000000000, nowTimestamp = 1700000000000\<rparr>"

text \<open>A capture for which the canvas gives no 2D context.\<close>

definition exampleEnvNoContext :: CaptureEnv where
  "exampleEnvNoContext =
     \<lparr>context2d = False, toDataURL = ''data:,'', nowId = 1700000000033, nowTimestamp = 1700000000033\<rparr>"

definition exampleImage :: "string \<Rightarrow> bool \<Rightarrow> CapturedImage" where
  "exampleImage i b = \<lparr>id_img = i, dataUrl = ''data:,'', selected = b, timestamp = 0\<rparr>"

text \<open>A rendered state with the camera on and three images, the second one selected.\<close>

definition exampleState :: ViewState where
  "exampleState =
     \<lparr>stream = Some exampleStream, error = None,
      capturedImages =
        [exampleImage ''img-1'' False, exampleImage ''img-2'' True, exampleImage ''img-3'' False],
      videoRef = Some \<lparr>srcObject = Some exampleStream\<rparr>,
      pending = 0, stoppedTracks = []\<rparr>"

section \<open>Auxiliary facts\<close>

subsection \<open>Decimal numerals determine the number\<close>

lemma digit_char_inj:
  assumes "a < 10" and "b < 10" and eq: "digit_char a = digit_char b"
  shows "a = b"
proof -
  have "distinct ''0123456789''" by simp
  moreover have "a < length ''0123456789''" and "b < length ''0123456789''"
    using assms(1,2) by simp_all
  ultimately show ?thesis
    using eq unfolding digit_char_def by (simp only: nth_eq_iff_index_eq)
qed

lemma digit_char_not_minus: "d < 10 \<Longrightarrow> digit_char d \<noteq> CHR ''-''"
proof
  assume d: "d < 10" and eq: "digit_char d = CHR ''-''"
  from d have "d < length ''0123456789''" by simp
  then have "''0123456789'' ! d \<in> set ''0123456789''" by (rule nth_mem)
  with eq show False by (simp add: digit_char_def)
qed

lemma digits_not_Nil: "digits n \<noteq> []"
  by (subst digits.simps) simp

lemma length_digits_ge10: "\<not> n < 10 \<Longrightarrow> 2 \<le> length (digits n)"
proof -
  assume "\<not> n < 10"
  then have "digits n = digits (n div 10) @ [digit_char (n mod 10)]"
    by (subst digits.simps) simp
  moreover have "1 \<le> length (digits (n div 10))"
    using digits_not_Nil [of "n div 10"] by (cases "digits (n div 10)") simp_all
  ultimately show ?thesis by simp
qed

lemma digits_inj: "digits n = digits m \<Longrightarrow> n = m"
proof (induction n arbitrary: m rule: digits.induct)
  case (1 n)
  show ?case
  proof (cases "n < 10")
    case small: True
    show ?thesis
    proof (cases "m < 10")
      case True
      with small 1 show ?thesis
        by (simp add: digits.simps [of n] digits.simps [of m] digit_char_inj)
    next
      case False
      then have "2 \<le> length (digits m)" by (rule length_digits_ge10)
      moreover have "length (digits n) = 1" using small by (simp add: digits.simps [of n])
      ultimately show ?thesis using 1 by simp
    qed
  next
    case big: False
    show ?thesis
    proof (cases "m < 10")
      case True
      then have "length (digits m) = 1" by (simp add: digits.simps [of m])
      moreover have "2 \<le> length (digits n)" using big by (rule length_digits_ge10)
      ultimately show ?thesis using 1 by simp
    next
      case False
      from big have n: "digits n = digits (n div 10) @ [digit_char (n mod 10)]"
        by (subst digits.simps) simp
      from False have m: "digits m = digits (m div 10) @ [digit_char (m mod 10)]"
        by (subst digits.simps) simp
      from n m "1.prems" have a: "digits (n div 10) = digits (m div 10)"
        and b: "digit_char (n mod 10) = digit_char (m mod 10)" by simp_all
      from "1.IH" [OF big a] have q: "n div 10 = m div 10" .
      from b have r: "n mod 10 = m mod 10" by (rule digit_char_inj [rotated 2]) simp_all
      from q r show ?thesis by (metis div_mult_mod_eq)
    qed
  qed
qed

lemma hd_digits: "hd (digits n) \<noteq> CHR ''-''"
proof (induction n rule: digits.induct)
  case (1 n)
  show ?case
  proof (cases "n < 10")
    case True
    then show ?thesis by (simp add: digits.simps [of n] digit_char_not_minus)
  next
    case False
    then have "digits n = digits (n div 10) @ [digit_char (n mod 10)]"
      by (subst digits.simps) simp
    then show ?thesis using 1 [OF False] digits_not_Nil [of "n div 10"] by simp
  qed
qed

lemma number_toString_inj: "number_toString i = number_toString j \<Longrightarrow> i = j"
proof -
  assume eq: "number_toString i = number_toString j"
  have neg_pos: "CHR ''-'' # digits a \<noteq> digits b" for a b
    using hd_digits [of b] by (cases "digits b") auto
  show ?thesis
  proof (cases "i < 0")
    case True
    show ?thesis
    proof (cases "j < 0")
      case jn: True
      with True eq have "digits (nat (- i)) = digits (nat (- j))"
        by (simp add: number_toString_def)
      then have "nat (- i) = nat (- j)" by (rule digits_inj)
      with True jn show ?thesis by simp
    next
      case False
      with True eq neg_pos show ?thesis by (simp add: number_toString_def)
    qed
  next
    case False
    show ?thesis
    proof (cases "j < 0")
      case True
      with False eq neg_pos [of "nat (- j)" "nat i"] show ?thesis
        by (simp add: number_toString_def)
    next
      case jp: False
      with False eq have "digits (nat i) = digits (nat j)"
        by (simp add: number_toString_def)
      then have "nat i = nat j" by (rule digits_inj)
      with False jp show ?thesis by simp
    qed
  qed
qed

lemma id_img_newImage_inj: "id_img (newImage a) = id_img (newImage b) \<Longrightarrow> nowId a = nowId b"
  by (simp add: newImage_def number_toString_inj)

lemma number_toString_example: "number_toString 1700000000000 = ''1700000000000''"
  by (simp add: number_toString_def digits.simps digit_char_def)

lemma number_toString_exampleLater: "number_toString 1700000000016 = ''1700000000016''"
  by (simp add: number_toString_def digits.simps digit_char_def)

subsection \<open>What rendering leaves alone\<close>

lemma commit_fields [simp]:
  "capturedImages (commit p s) = capturedImages s"
  "error (commit p s) = error s"
  "stream (commit p s) = stream s"
  "pending (commit p s) = pending s"
  by (simp_all add: commit_def render_def cleanup_def split: option.splits)

lemma videoRef_commit [simp]:
  "videoRef (commit p s) =
     (case stream s of Some m \<Rightarrow> Some \<lparr>srcObject = Some m\<rparr> | None \<Rightarrow> None)"
  by (simp add: commit_def render_def cleanup_def split: option.splits)

subsection \<open>Filtering keeps the largest subsequence\<close>

lemma subseq_filter_max:
  assumes a: "subseq r g" and b: "\<forall>x\<in>set r. P x"
  shows "subseq r (filter P g)"
proof -
  from a have "subseq (filter P r) (filter P g)" by (rule subseq_filter)
  moreover from b have "filter P r = r" by simp
  ultimately show ?thesis by simp
qed

subsection \<open>Captures while the video element is mounted\<close>

lemma step_Capture:
  assumes "stream s \<noteq> None" and "videoRef s \<noteq> None" and "context2d e"
  shows "capturedImages (step (Capture e) s) = capturedImages s @ [newImage e]"
    and "stream (step (Capture e) s) \<noteq> None"
    and "videoRef (step (Capture e) s) \<noteq> None"
  using assms by (auto simp: step_def captureImage_def split: option.splits)

lemma run_Captures:
  "stream s \<noteq> None \<Longrightarrow> videoRef s \<noteq> None \<Longrightarrow> \<forall>e\<in>set es. context2d e \<Longrightarrow>
   capturedImages (run (map Capture es) s) = capturedImages s @ map newImage es"
proof (induction es arbitrary: s)
  case Nil
  then show ?case by simp
next
  case (Cons e es)
  from Cons.prems have e: "context2d e" and es: "\<forall>e\<in>set es. context2d e" by simp_all
  note st = step_Capture [OF Cons.prems(1) Cons.prems(2) e]
  from Cons.IH [OF st(2) st(3) es] st(1) show ?case by simp
qed

lemma distinct_new_ids:
  "distinct (map nowId es) \<Longrightarrow> distinct (map (\<lambda>e. id_img (newImage e)) es)"
proof (induction es)
  case Nil
  then show ?case by simp
next
  case (Cons e es)
  then have "nowId e \<notin> nowId ` set es"
    and "distinct (map (\<lambda>e. id_img (newImage e)) es)" by simp_all
  moreover have "id_img (newImage e) \<in> (\<lambda>e. id_img (newImage e)) ` set es
      \<Longrightarrow> nowId e \<in> nowId ` set es"
    by (auto dest: id_img_newImage_inj)
  ultimately show ?case by auto
qed

subsection \<open>The lifecycle invariant is kept by every event\<close>

lemma step_lifecycle_inv:
  assumes "lifecycle_inv s" and "enabled e s" and "e = StartBegin \<longrightarrow> pending s = 0"
  shows "lifecycle_inv (step e s)"
proof (cases e)
  case StartBegin
  with assms show ?thesis by (simp add: lifecycle_inv_def step_def startCamera_begin_def)
next
  case (StartResolve m)
  with assms show ?thesis by (auto simp: lifecycle_inv_def step_def startCamera_resolved_def)
next
  case StartReject
  with assms show ?thesis by (auto simp: lifecycle_inv_def step_def startCamera_rejected_def)
next
  case Stop
  with assms show ?thesis by (auto simp: lifecycle_inv_def step_def stopCamera_def split: option.splits)
next
  case (Capture env)
  with assms show ?thesis by (auto simp: lifecycle_inv_def step_def captureImage_def split: option.splits)
next
  case (Toggle i)
  with assms show ?thesis by (simp add: lifecycle_inv_def step_def toggleImageSelection_def)
next
  case Delete
  with assms show ?thesis by (simp add: lifecycle_inv_def step_def deleteSelectedImages_def)
qed

lemma run_lifecycle_inv:
  "lifecycle_inv s \<Longrightarrow> ui_trace es s \<Longrightarrow> no_overlap es s \<Longrightarrow> lifecycle_inv (run es s)"
proof (induction es arbitrary: s)
  case Nil
  then show ?case by simp
next
  case (Cons e es)
  from Cons.prems have "lifecycle_inv (step e s)" by (intro step_lifecycle_inv) simp_all
  moreover from Cons.prems have "ui_trace es (step e s)" and "no_overlap es (step e s)" by simp_all
  ultimately show ?case using Cons.IH by simp
qed

subsection \<open>The stream, the error and the pending count after an event\<close>

lemma step_fields:
  "stream (step StartBegin s) = stream s"
  "error (step StartBegin s) = None"
  "pending (step StartBegin s) = pending s + 1"
  "stream (step (StartResolve m) s) = Some m"
  "error (step (StartResolve m) s) = error s"
  "pending (step (StartResolve m) s) = pending s - 1"
  "stream (step StartReject s) = stream s"
  "error (step StartReject s) = Some cameraErrorMessage"
  "pending (step StartReject s) = pending s - 1"
  "stream (step Stop s) = None"
  "error (step Stop s) = error s"
  "pending (step Stop s) = pending s"
  by (simp_all add: step_def startCamera_begin_def startCamera_resolved_def
      startCamera_rejected_def stopCamera_def split: option.splits)

subsection \<open>Traces in two parts\<close>

lemma run_append: "run (xs @ ys) s = run ys (run xs s)"
  by (induction xs arbitrary: s) simp_all

lemma ui_trace_append: "ui_trace (xs @ ys) s = (ui_trace xs s \<and> ui_trace ys (run xs s))"
  by (induction xs arbitrary: s) simp_all

lemma no_overlap_append: "no_overlap (xs @ ys) s = (no_overlap xs s \<and> no_overlap ys (run xs s))"
  by (induction xs arbitrary: s) simp_all

subsection \<open>The invariant at the start and while an acquisition is pending\<close>

lemma lifecycle_inv_initialState: "lifecycle_inv initialState"
  by (simp add: lifecycle_inv_def initialState_def)

lemma lifecycle_inv_pending:
  "lifecycle_inv s \<Longrightarrow> 0 < pending s \<Longrightarrow> stream s = None \<and> error s = None"
  by (simp add: lifecycle_inv_def)

subsection \<open>The gallery after an event\<close>

lemma step_fields_gallery:
  "stream (step (Capture env) s) = stream s"
  "error (step (Capture env) s) = error s"
  "pending (step (Capture env) s) = pending s"
  "stream (step (Toggle i) s) = stream s"
  "error (step (Toggle i) s) = error s"
  "pending (step (Toggle i) s) = pending s"
  "stream (step Delete s) = stream s"
  "error (step Delete s) = error s"
  "pending (step Delete s) = pending s"
  "capturedImages (step StartBegin s) = capturedImages s"
  "capturedImages (step (StartResolve m) s) = capturedImages s"
  "capturedImages (step StartReject s) = capturedImages s"
  "capturedImages (step Stop s) = capturedImages s"
  "capturedImages (step (Capture env) s) =
     (if videoRef s \<noteq> None \<and> context2d env
      then capturedImages s @ [newImage env] else capturedImages s)"
  "capturedImages (step (Toggle i) s) =
     map (\<lambda>img. if id_img img = i then img\<lparr>selected := \<not> selected img\<rparr> else img)
       (capturedImages s)"
  "capturedImages (step Delete s) = filter (\<lambda>img. \<not> selected img) (capturedImages s)"
  "(videoRef (step e s) = None) = (stream (step e s) = None)"
  by (simp_all add: step_def startCamera_begin_def startCamera_resolved_def
      startCamera_rejected_def stopCamera_def captureImage_def toggleImageSelection_def
      deleteSelectedImages_def split: option.splits)

section \<open>The claims\<close>

subsection \<open>Capture\<close>

text \<open>
  Claim C1, as the code has it. While a feed is bound (the stream is set and the
  \<open>video\<close> element is mounted) and every call obtains a 2D context, each capture
  appends exactly one record, \<open>newImage\<close> of that call, to the end of the gallery, and
  leaves the entries before it as they were: after the calls \<open>es\<close> the gallery is the
  old gallery followed by one record for each call, in order. The ids of the gallery
  are pairwise distinct if they were before, the clock values that the calls put in
  their ids are pairwise distinct, and none of the new ids was in the gallery.
\<close>

theorem capture_appends_one_per_call:
  assumes "stream s \<noteq> None" and "videoRef s \<noteq> None" and "\<forall>e\<in>set es. context2d e"
  shows "capturedImages (run (map Capture es) s) = capturedImages s @ map newImage es
    \<and> length (capturedImages (run (map Capture es) s)) = length (capturedImages s) + length es
    \<and> (\<forall>k < length es.
          capturedImages (run (map Capture (take (Suc k) es)) s) =
          capturedImages (run (map Capture (take k es)) s) @ [newImage (es ! k)])
    \<and> (distinct (map id_img (capturedImages s)) \<and> distinct (map nowId es)
        \<and> (\<forall>e\<in>set es. id_img (newImage e) \<notin> set (map id_img (capturedImages s)))
       \<longrightarrow> distinct (map id_img (capturedImages (run (map Capture es) s))))"
proof -
  have all: "capturedImages (run (map Capture es) s) = capturedImages s @ map newImage es"
    using assms by (rule run_Captures)
  have pre: "capturedImages (run (map Capture (take k es)) s)
      = capturedImages s @ map newImage (take k es)" for k
    using assms(1,2)
  proof (rule run_Captures)
    show "\<forall>e\<in>set (take k es). context2d e" using assms(3) by (auto dest: in_set_takeD)
  qed
  have each: "\<forall>k < length es.
          capturedImages (run (map Capture (take (Suc k) es)) s) =
          capturedImages (run (map Capture (take k es)) s) @ [newImage (es ! k)]"
  proof (intro allI impI)
    fix k assume "k < length es"
    then have "map newImage (take (Suc k) es) = map newImage (take k es) @ [newImage (es ! k)]"
      by (simp add: take_Suc_conv_app_nth)
    then show "capturedImages (run (map Capture (take (Suc k) es)) s) =
          capturedImages (run (map Capture (take k es)) s) @ [newImage (es ! k)]"
      by (simp only: pre append_assoc)
  qed
  have dist: "distinct (map id_img (capturedImages s @ map newImage es))"
    if a: "distinct (map id_img (capturedImages s))" and b: "distinct (map nowId es)"
      and c: "\<forall>e\<in>set es. id_img (newImage e) \<notin> set (map id_img (capturedImages s))"
  proof -
    from b have "distinct (map (\<lambda>e. id_img (newImage e)) es)" by (rule distinct_new_ids)
    then have "distinct (map id_img (map newImage es))" by (simp add: comp_def)
    moreover from c
    have "set (map id_img (capturedImages s)) \<inter> set (map id_img (map newImage es)) = {}"
      by (fastforce simp: image_iff)
    ultimately show ?thesis using a by simp
  qed
  from all each dist show ?thesis by simp
qed

text \<open>
  The theorem at the state \<open>exampleState\<close> and two captures sixteen milliseconds apart: the
  gallery of three grows to five, with five distinct ids.
\<close>

theorem capture_appends_one_per_call_witness:
  "stream exampleState \<noteq> None \<and> videoRef exampleState \<noteq> None
   \<and> context2d exampleEnv \<and> context2d exampleEnvLater
   \<and> capturedImages (run (map Capture [exampleEnv, exampleEnvLater]) exampleState)
       = capturedImages exampleState @ [newImage exampleEnv, newImage exampleEnvLater]
   \<and> length (capturedImages (run (map Capture [exampleEnv, exampleEnvLater]) exampleState)) = 5
   \<and> distinct (map id_img
        (capturedImages (run (map Capture [exampleEnv, exampleEnvLater]) exampleState)))"
proof -
  have h1: "stream exampleState \<noteq> None" and h2: "videoRef exampleState \<noteq> None"
    by (simp_all add: exampleState_def)
  have c1: "context2d exampleEnv" and c2: "context2d exampleEnvLater"
    by (simp_all add: exampleEnv_def exampleEnvLater_def)
  from c1 c2 have h3: "\<forall>e\<in>set [exampleEnv, exampleEnvLater]. context2d e" by simp
  have ids: "map id_img (capturedImages exampleState) = [''img-1'', ''img-2'', ''img-3'']"
    by (simp add: exampleState_def exampleImage_def)
  have n1: "id_img (newImage exampleEnv) = ''img-1700000000000''"
    by (simp add: newImage_def exampleEnv_def number_toString_example)
  have n2: "id_img (newImage exampleEnvLater) = ''img-1700000000016''"
    by (simp add: newImage_def exampleEnvLater_def number_toString_exampleLater)
  have d1: "distinct (map id_img (capturedImages exampleState))"
    by (simp add: ids)
  have d2: "distinct (map nowId [exampleEnv, exampleEnvLater])"
    by (simp add: exampleEnv_def exampleEnvLater_def)
  have d3: "\<forall>e\<in>set [exampleEnv, exampleEnvLater].
      id_img (newImage e) \<notin> set (map id_img (capturedImages exampleState))"
    by (simp add: ids n1 n2)
  have len: "length (capturedImages exampleState) = 3"
    by (simp add: exampleState_def)
  note main = capture_appends_one_per_call [OF h1 h2 h3]
  from main have a: "capturedImages (run (map Capture [exampleEnv, exampleEnvLater]) exampleState)
       = capturedImages exampleState @ map newImage [exampleEnv, exampleEnvLater]"
    by (rule conjunct1)
  from main d1 d2 d3 have d: "distinct (map id_img
        (capturedImages (run (map Capture [exampleEnv, exampleEnvLater]) exampleState)))"
    by blast
  from a len have l:
    "length (capturedImages (run (map Capture [exampleEnv, exampleEnvLater]) exampleState)) = 5"
    by simp
  from a have a': "capturedImages (run (map Capture [exampleEnv, exampleEnvLater]) exampleState)
       = capturedImages exampleState @ [newImage exampleEnv, newImage exampleEnvLater]"
    by simp
  from h1 h2 c1 c2 a' l d show ?thesis by blast
qed

text \<open>
  Claim C1 as stated fails. Two captures that read the same value of \<open>Date.now()\<close>
  get the same id, so the ids of the gallery are not pairwise distinct; and a capture
  for which the canvas gives no 2D context appends nothing, so the length does not
  grow with that call. Both happen with the feed bound.
\<close>

theorem capture_same_tick_ids_collide:
  "stream (run [StartBegin, StartResolve exampleStream] initialState) \<noteq> None
   \<and> videoRef (run [StartBegin, StartResolve exampleStream] initialState) \<noteq> None
   \<and> \<not> distinct (map id_img (capturedImages
         (run [Capture exampleEnv, Capture exampleEnvSameTick]
            (run [StartBegin, StartResolve exampleStream] initialState))))
   \<and> length (capturedImages (run [Capture exampleEnvNoContext]
            (run [StartBegin, StartResolve exampleStream] initialState)))
      = length (capturedImages (run [StartBegin, StartResolve exampleStream] initialState))"
  by (simp add: step_def initialState_def startCamera_begin_def startCamera_resolved_def
      captureImage_def newImage_def exampleEnv_def exampleEnvSameTick_def
      exampleEnvNoContext_def)

subsection \<open>Deletion\<close>

text \<open>
  Claim C2. The gallery after \<open>deleteSelectedImages\<close> is a subsequence of the gallery
  before (the entries that remain are unchanged and in their order), none of its
  entries is selected, and every subsequence of unselected entries of the old gallery
  is a subsequence of it: exactly the selected entries are gone, as many as were
  selected. Deleting twice is deleting once, deleting with nothing selected changes
  nothing, and the stream and the error are not touched.
\<close>

theorem deleteSelected_removes_exactly_selected:
  "subseq (capturedImages (deleteSelectedImages s)) (capturedImages s)
   \<and> (\<forall>img \<in> set (capturedImages (deleteSelectedImages s)). \<not> selected img)
   \<and> (\<forall>r. subseq r (capturedImages s) \<and> (\<forall>img \<in> set r. \<not> selected img)
         \<longrightarrow> subseq r (capturedImages (deleteSelectedImages s)))
   \<and> length (capturedImages (deleteSelectedImages s))
        + length (filter selected (capturedImages s))
       = length (capturedImages s)
   \<and> deleteSelectedImages (deleteSelectedImages s) = deleteSelectedImages s
   \<and> ((\<forall>img \<in> set (capturedImages s). \<not> selected img) \<longrightarrow> deleteSelectedImages s = s)
   \<and> stream (deleteSelectedImages s) = stream s
   \<and> error (deleteSelectedImages s) = error s"
proof -
  let ?g = "capturedImages s"
  have 1: "subseq (filter (\<lambda>img. \<not> selected img) ?g) ?g" by simp
  have 3: "\<forall>r. subseq r ?g \<and> (\<forall>img \<in> set r. \<not> selected img)
         \<longrightarrow> subseq r (filter (\<lambda>img. \<not> selected img) ?g)"
    by (blast intro: subseq_filter_max)
  have 4: "length (filter (\<lambda>img. \<not> selected img) ?g) + length (filter selected ?g) = length ?g"
    using sum_length_filter_compl [of selected ?g] by simp
  have 6: "(\<forall>img \<in> set ?g. \<not> selected img)
      \<longrightarrow> s\<lparr>capturedImages := filter (\<lambda>img. \<not> selected img) ?g\<rparr> = s"
    by simp
  from 1 3 4 6 show ?thesis
    by (simp add: deleteSelectedImages_def)
qed

text \<open>
  At \<open>exampleState\<close>, where the second of three images is selected: the first and the
  third remain, in this order; and once the second is deselected, deleting changes
  nothing.
\<close>

theorem deleteSelected_removes_exactly_selected_witness:
  "subseq [exampleImage ''img-1'' False, exampleImage ''img-3'' False]
      (capturedImages (deleteSelectedImages exampleState))
   \<and> length (capturedImages (deleteSelectedImages exampleState)) = 2
   \<and> deleteSelectedImages (toggleImageSelection ''img-2'' exampleState)
       = toggleImageSelection ''img-2'' exampleState"
proof -
  have a: "subseq [exampleImage ''img-1'' False, exampleImage ''img-3'' False]
      (capturedImages exampleState)"
    by (simp add: exampleState_def)
  have b: "\<forall>img \<in> set [exampleImage ''img-1'' False, exampleImage ''img-3'' False].
      \<not> selected img"
    by (simp add: exampleImage_def)
  have c: "\<forall>img \<in> set (capturedImages (toggleImageSelection ''img-2'' exampleState)).
      \<not> selected img"
    by (simp add: toggleImageSelection_def exampleState_def exampleImage_def)
  have d: "length (filter selected (capturedImages exampleState)) = 1"
    and e: "length (capturedImages exampleState) = 3"
    by (simp_all add: exampleState_def exampleImage_def)
  from deleteSelected_removes_exactly_selected [of exampleState]
    deleteSelected_removes_exactly_selected [of "toggleImageSelection ''img-2'' exampleState"]
    a b c d e
  show ?thesis by auto
qed

text \<open>
  Claim C9. After \<open>deleteSelectedImages\<close> no entry of the gallery is selected; so the
  button that deletes the selection is not rendered after a deletion (the event is not
  offered), and a second deletion leaves the gallery as the first one left it.
\<close>

theorem deleteSelected_leaves_none_selected:
  "(\<forall>img \<in> set (capturedImages (deleteSelectedImages s)). \<not> selected img)
   \<and> \<not> showDeleteButton (deleteSelectedImages s)
   \<and> \<not> enabled Delete (step Delete s)
   \<and> capturedImages (deleteSelectedImages (deleteSelectedImages s))
       = capturedImages (deleteSelectedImages s)
   \<and> capturedImages (run [Delete, Delete] s) = capturedImages (run [Delete] s)"
  by (simp add: deleteSelectedImages_def showDeleteButton_def list_ex_iff step_def)

text \<open>At \<open>exampleState\<close> the button is rendered before the deletion and not after it.\<close>

theorem deleteSelected_leaves_none_selected_witness:
  "showDeleteButton exampleState
   \<and> \<not> showDeleteButton (deleteSelectedImages exampleState)
   \<and> \<not> enabled Delete (step Delete exampleState)
   \<and> \<not> selected (capturedImages (deleteSelectedImages exampleState) ! 0)
   \<and> \<not> selected (capturedImages (deleteSelectedImages exampleState) ! 1)
   \<and> capturedImages (run [Delete, Delete] exampleState)
       = capturedImages (run [Delete] exampleState)"
proof -
  have "showDeleteButton exampleState"
    by (simp add: showDeleteButton_def exampleState_def exampleImage_def)
  moreover have "capturedImages (deleteSelectedImages exampleState)
      = [exampleImage ''img-1'' False, exampleImage ''img-3'' False]"
    by (simp add: deleteSelectedImages_def exampleState_def exampleImage_def)
  ultimately show ?thesis
    using deleteSelected_leaves_none_selected [of exampleState] by simp
qed

subsection \<open>Selection\<close>

text \<open>
  Claim C3. \<open>toggleImageSelection i\<close> is its own inverse: applied twice it gives the
  state back, so every entry has its \<open>selected\<close> value again. Applied once it keeps the
  length of the gallery, and an entry whose id is not \<open>i\<close> keeps its \<open>selected\<close> value.
\<close>

theorem toggleSelection_involution:
  "toggleImageSelection i (toggleImageSelection i s) = s
   \<and> length (capturedImages (toggleImageSelection i s)) = length (capturedImages s)
   \<and> (\<forall>k < length (capturedImages s). id_img (capturedImages s ! k) \<noteq> i \<longrightarrow>
        selected (capturedImages (toggleImageSelection i s) ! k)
          = selected (capturedImages s ! k))"
proof -
  have "map ((\<lambda>img. if id_img img = i then img\<lparr>selected := \<not> selected img\<rparr> else img) \<circ>
             (\<lambda>img. if id_img img = i then img\<lparr>selected := \<not> selected img\<rparr> else img)) g = g"
    for g :: "CapturedImage list"
    by (induction g) simp_all
  then show ?thesis by (simp add: toggleImageSelection_def)
qed

theorem toggleSelection_involution_witness:
  "0 < length (capturedImages exampleState)
   \<and> id_img (capturedImages exampleState ! 0) \<noteq> ''img-2''
   \<and> selected (capturedImages (toggleImageSelection ''img-2'' exampleState) ! 0)
       = selected (capturedImages exampleState ! 0)
   \<and> toggleImageSelection ''img-2'' (toggleImageSelection ''img-2'' exampleState)
       = exampleState"
proof -
  have a: "0 < length (capturedImages exampleState)"
    and b: "id_img (capturedImages exampleState ! 0) \<noteq> ''img-2''"
    by (simp_all add: exampleState_def exampleImage_def)
  from toggleSelection_involution [of "''img-2''" exampleState] a b
  show ?thesis by blast
qed

text \<open>
  Claim C4. \<open>toggleImageSelection i\<close> keeps the length of the gallery; at every
  position, an entry whose id is \<open>i\<close> becomes the same entry with \<open>selected\<close> negated,
  and an entry with another id is the entry that was there. If no entry has the id
  \<open>i\<close> the state is unchanged. The stream and the error are not touched.
\<close>

theorem toggleSelection_flips_only_matching:
  "length (capturedImages (toggleImageSelection i s)) = length (capturedImages s)
   \<and> (\<forall>k < length (capturedImages s).
        capturedImages (toggleImageSelection i s) ! k =
          (if id_img (capturedImages s ! k) = i
           then (capturedImages s ! k)\<lparr>selected := \<not> selected (capturedImages s ! k)\<rparr>
           else capturedImages s ! k))
   \<and> (i \<notin> set (map id_img (capturedImages s)) \<longrightarrow> toggleImageSelection i s = s)
   \<and> stream (toggleImageSelection i s) = stream s
   \<and> error (toggleImageSelection i s) = error s"
proof -
  have "i \<notin> id_img ` set g \<Longrightarrow>
     map (\<lambda>img. if id_img img = i then img\<lparr>selected := \<not> selected img\<rparr> else img) g = g"
    for g :: "CapturedImage list"
    by (induction g) auto
  then show ?thesis by (simp add: toggleImageSelection_def)
qed

theorem toggleSelection_flips_only_matching_witness:
  "capturedImages (toggleImageSelection ''img-2'' exampleState) ! 1
       = exampleImage ''img-2'' False
   \<and> capturedImages (toggleImageSelection ''img-2'' exampleState) ! 2
       = exampleImage ''img-3'' False
   \<and> ''img-9'' \<notin> set (map id_img (capturedImages exampleState))
   \<and> toggleImageSelection ''img-9'' exampleState = exampleState"
proof -
  have a: "''img-9'' \<notin> set (map id_img (capturedImages exampleState))"
    by (simp add: exampleState_def exampleImage_def)
  have b: "capturedImages exampleState =
      [exampleImage ''img-1'' False, exampleImage ''img-2'' True, exampleImage ''img-3'' False]"
    by (simp add: exampleState_def)
  from toggleSelection_flips_only_matching [of "''img-2''" exampleState]
  have "capturedImages (toggleImageSelection ''img-2'' exampleState) ! 1
       = exampleImage ''img-2'' False
     \<and> capturedImages (toggleImageSelection ''img-2'' exampleState) ! 2
       = exampleImage ''img-3'' False"
    by (simp add: b exampleImage_def)
  with toggleSelection_flips_only_matching [of "''img-9''" exampleState] a
  show ?thesis by blast
qed

subsection \<open>The camera session\<close>

text \<open>
  Claim C5, as the code has it. Take the traces of events that the rendered page
  offers, from the initial state, in which no acquisition begins while another one is
  pending. In every state they reach, the stream and the error are not both set.
  There, the beginning of \<open>startCamera\<close> clears the error; an acquisition that
  succeeds sets the stream and leaves the error absent; one that fails sets the error
  to the message and leaves the stream absent; \<open>stopCamera\<close> clears the stream and
  keeps the error.
\<close>

theorem session_error_exclusive_without_overlap:
  assumes "ui_trace es initialState" and "no_overlap es initialState"
  shows "\<not> (stream (run es initialState) \<noteq> None \<and> error (run es initialState) \<noteq> None)
    \<and> error (step StartBegin (run es initialState)) = None
    \<and> (enabled (StartResolve m) (run es initialState) \<longrightarrow>
         stream (step (StartResolve m) (run es initialState)) = Some m
         \<and> error (step (StartResolve m) (run es initialState)) = None)
    \<and> (enabled StartReject (run es initialState) \<longrightarrow>
         error (step StartReject (run es initialState)) = Some cameraErrorMessage
         \<and> stream (step StartReject (run es initialState)) = None)
    \<and> stream (step Stop (run es initialState)) = None
    \<and> error (step Stop (run es initialState)) = error (run es initialState)"
proof -
  have "lifecycle_inv initialState" by (simp add: lifecycle_inv_def initialState_def)
  then have inv: "lifecycle_inv (run es initialState)" using assms by (rule run_lifecycle_inv)
  let ?s = "run es initialState"
  from inv have 1: "\<not> (stream ?s \<noteq> None \<and> error ?s \<noteq> None)"
    by (auto simp: lifecycle_inv_def)
  have 2: "error (step StartBegin ?s) = None" by (simp add: step_def startCamera_begin_def)
  from inv have 3: "enabled (StartResolve m) ?s \<longrightarrow>
         stream (step (StartResolve m) ?s) = Some m \<and> error (step (StartResolve m) ?s) = None"
    by (simp add: lifecycle_inv_def step_def startCamera_resolved_def)
  from inv have 4: "enabled StartReject ?s \<longrightarrow>
         error (step StartReject ?s) = Some cameraErrorMessage
         \<and> stream (step StartReject ?s) = None"
    by (simp add: lifecycle_inv_def step_def startCamera_rejected_def)
  have 5: "stream (step Stop ?s) = None \<and> error (step Stop ?s) = error ?s"
    by (simp add: step_def stopCamera_def split: option.splits)
  from 1 2 3 4 5 show ?thesis by blast
qed

text \<open>
  The theorem after a failed start and a second click on the start button: one
  acquisition is pending, so it may succeed or fail, with the results stated.
\<close>

theorem session_error_exclusive_without_overlap_witness:
  "ui_trace [StartBegin, StartReject, StartBegin] initialState
   \<and> no_overlap [StartBegin, StartReject, StartBegin] initialState
   \<and> \<not> (stream (run [StartBegin, StartReject, StartBegin] initialState) \<noteq> None
        \<and> error (run [StartBegin, StartReject, StartBegin] initialState) \<noteq> None)
   \<and> enabled (StartResolve exampleStream) (run [StartBegin, StartReject, StartBegin] initialState)
   \<and> stream (step (StartResolve exampleStream)
        (run [StartBegin, StartReject, StartBegin] initialState)) = Some exampleStream
   \<and> error (step (StartResolve exampleStream)
        (run [StartBegin, StartReject, StartBegin] initialState)) = None
   \<and> enabled StartReject (run [StartBegin, StartReject, StartBegin] initialState)
   \<and> error (step StartReject
        (run [StartBegin, StartReject, StartBegin] initialState)) = Some cameraErrorMessage
   \<and> stream (step StartReject
        (run [StartBegin, StartReject, StartBegin] initialState)) = None"
proof -
  have i: "stream initialState = None" "pending initialState = 0"
    by (simp_all add: initialState_def)
  have a: "ui_trace [StartBegin, StartReject, StartBegin] initialState"
    by (simp add: step_fields i)
  have b: "no_overlap [StartBegin, StartReject, StartBegin] initialState"
    by (simp add: step_fields i)
  have c: "enabled (StartResolve exampleStream)
      (run [StartBegin, StartReject, StartBegin] initialState)"
    and d: "enabled StartReject (run [StartBegin, StartReject, StartBegin] initialState)"
    by (simp_all add: step_fields i)
  from session_error_exclusive_without_overlap [OF a b, of exampleStream] a b c d
  show ?thesis by blast
qed

text \<open>
  Claim C5 as stated fails. The start button stays on the page while an acquisition
  is pending (\<open>stream\<close> is still \<open>null\<close>), and \<open>startCamera\<close> has no guard against a
  second click. When the first acquisition succeeds and the second one fails, the
  \<open>catch\<close> branch sets the error and leaves the stream of the first in place: the
  page reaches a state with both set.
\<close>

theorem overlapping_starts_set_both:
  "ui_trace [StartBegin, StartBegin, StartResolve exampleStream, StartReject] initialState
   \<and> stream (run [StartBegin, StartBegin, StartResolve exampleStream, StartReject] initialState)
        \<noteq> None
   \<and> error (run [StartBegin, StartBegin, StartResolve exampleStream, StartReject] initialState)
        \<noteq> None"
  by (simp add: step_fields initialState_def)

text \<open>
  Claim C6, as the code has it. Take a trace of events that the rendered page offers,
  from the initial state, in which no acquisition begins while another one is pending.
  When a start fails in it, the error is the fixed message and the stream is absent;
  when a start succeeds later in it, after any events in between, the error is absent
  and the stream is the one that \<open>getUserMedia\<close> gave.
\<close>

theorem start_failure_then_success_without_overlap:
  assumes tr: "ui_trace (es1 @ [StartReject] @ es2 @ [StartResolve m]) initialState"
    and no: "no_overlap (es1 @ [StartReject] @ es2 @ [StartResolve m]) initialState"
  shows "error (run (es1 @ [StartReject]) initialState) = Some cameraErrorMessage
    \<and> stream (run (es1 @ [StartReject]) initialState) = None
    \<and> error (run (es1 @ [StartReject] @ es2 @ [StartResolve m]) initialState) = None
    \<and> stream (run (es1 @ [StartReject] @ es2 @ [StartResolve m]) initialState) = Some m"
proof -
  let ?s1 = "run es1 initialState"
  let ?s2 = "run (es1 @ [StartReject] @ es2) initialState"
  from tr have t1: "ui_trace es1 initialState" and p1: "0 < pending ?s1"
    by (simp_all add: ui_trace_append)
  from no have n1: "no_overlap es1 initialState"
    by (simp add: no_overlap_append)
  from lifecycle_inv_initialState t1 n1 have "lifecycle_inv ?s1" by (rule run_lifecycle_inv)
  then have "stream ?s1 = None" using p1 by (simp add: lifecycle_inv_pending)
  then have a: "error (run (es1 @ [StartReject]) initialState) = Some cameraErrorMessage
      \<and> stream (run (es1 @ [StartReject]) initialState) = None"
    by (simp add: run_append step_fields)
  from tr have "ui_trace ((es1 @ [StartReject] @ es2) @ [StartResolve m]) initialState" by simp
  then have t2: "ui_trace (es1 @ [StartReject] @ es2) initialState" and p2: "0 < pending ?s2"
    unfolding ui_trace_append [of "es1 @ [StartReject] @ es2"] by simp_all
  from no have "no_overlap ((es1 @ [StartReject] @ es2) @ [StartResolve m]) initialState" by simp
  then have n2: "no_overlap (es1 @ [StartReject] @ es2) initialState"
    unfolding no_overlap_append [of "es1 @ [StartReject] @ es2"] by simp
  from lifecycle_inv_initialState t2 n2 have "lifecycle_inv ?s2" by (rule run_lifecycle_inv)
  then have "error ?s2 = None" using p2 by (simp add: lifecycle_inv_pending)
  moreover have "run (es1 @ [StartReject] @ es2 @ [StartResolve m]) initialState
      = step (StartResolve m) ?s2"
    using run_append [of "es1 @ [StartReject] @ es2" "[StartResolve m]" initialState] by simp
  ultimately have b: "error (run (es1 @ [StartReject] @ es2 @ [StartResolve m]) initialState) = None
      \<and> stream (run (es1 @ [StartReject] @ es2 @ [StartResolve m]) initialState) = Some m"
    by (simp add: step_fields)
  from a b show ?thesis by blast
qed

text \<open>
  The theorem on a session with an image in the gallery: the camera is started and
  stopped, the next start fails after a tile was clicked, and the start after that
  succeeds after the selection was deleted.
\<close>

theorem start_failure_then_success_without_overlap_witness:
  "ui_trace
     ([StartBegin, StartResolve exampleStream, Capture exampleEnv, Stop, StartBegin,
       Toggle (id_img (newImage exampleEnv))]
      @ [StartReject] @ [StartBegin, Delete] @ [StartResolve exampleStream]) initialState
   \<and> no_overlap
     ([StartBegin, StartResolve exampleStream, Capture exampleEnv, Stop, StartBegin,
       Toggle (id_img (newImage exampleEnv))]
      @ [StartReject] @ [StartBegin, Delete] @ [StartResolve exampleStream]) initialState
   \<and> error (run
     ([StartBegin, StartResolve exampleStream, Capture exampleEnv, Stop, StartBegin,
       Toggle (id_img (newImage exampleEnv))]
      @ [StartReject]) initialState) = Some cameraErrorMessage
   \<and> stream (run
     ([StartBegin, StartResolve exampleStream, Capture exampleEnv, Stop, StartBegin,
       Toggle (id_img (newImage exampleEnv))]
      @ [StartReject]) initialState) = None
   \<and> error (run
     ([StartBegin, StartResolve exampleStream, Capture exampleEnv, Stop, StartBegin,
       Toggle (id_img (newImage exampleEnv))]
      @ [StartReject] @ [StartBegin, Delete] @ [StartResolve exampleStream]) initialState) = None
   \<and> stream (run
     ([StartBegin, StartResolve exampleStream, Capture exampleEnv, Stop, StartBegin,
       Toggle (id_img (newImage exampleEnv))]
      @ [StartReject] @ [StartBegin, Delete] @ [StartResolve exampleStream]) initialState)
       = Some exampleStream"
proof -
  have c: "context2d exampleEnv" by (simp add: exampleEnv_def)
  have u: "\<not> selected (newImage exampleEnv)" by (simp add: newImage_def)
  have i: "stream initialState = None" "pending initialState = 0"
    "capturedImages initialState = []" "error initialState = None"
    by (simp_all add: initialState_def)
  have a: "ui_trace
     ([StartBegin, StartResolve exampleStream, Capture exampleEnv, Stop, StartBegin,
       Toggle (id_img (newImage exampleEnv))]
      @ [StartReject] @ [StartBegin, Delete] @ [StartResolve exampleStream]) initialState"
    by (simp add: step_fields step_fields_gallery showDeleteButton_def c u i)
  have b: "no_overlap
     ([StartBegin, StartResolve exampleStream, Capture exampleEnv, Stop, StartBegin,
       Toggle (id_img (newImage exampleEnv))]
      @ [StartReject] @ [StartBegin, Delete] @ [StartResolve exampleStream]) initialState"
    by (simp add: step_fields step_fields_gallery i)
  from start_failure_then_success_without_overlap [OF a b] a b
  show ?thesis by blast
qed

text \<open>
  Claim C6 as stated fails. The start button stays on the page while an acquisition
  is pending, so two starts can overlap. If the first of them fails and the second
  succeeds, the successful start does not clear the error that the failure set in
  between; if the first succeeds and the second fails, the failing start leaves the
  stream of the first one set.
\<close>

theorem overlapping_start_outcomes_cross:
  "ui_trace [StartBegin, StartBegin, StartReject, StartResolve exampleStream] initialState
   \<and> error (run [StartBegin, StartBegin, StartReject, StartResolve exampleStream] initialState)
       = Some cameraErrorMessage
   \<and> ui_trace [StartBegin, StartBegin, StartResolve exampleStream, StartReject] initialState
   \<and> stream (run [StartBegin, StartBegin, StartResolve exampleStream, StartReject] initialState)
       = Some exampleStream"
  by (simp add: step_fields initialState_def)

text \<open>
  Claim C7. \<open>stopCamera\<close> twice is \<open>stopCamera\<close> once, as a handler and as an event
  of the page, and with no stream set it changes nothing. After the stop event the
  page has rendered without the \<open>video\<close> element, so \<open>videoRef.current\<close> is \<open>null\<close>
  and a capture that follows changes nothing: the state, and the gallery in it, is
  the one the stop left, and the gallery is the one before the stop.
\<close>

theorem stop_idempotent_then_capture_noop:
  "stopCamera (stopCamera s) = stopCamera s
   \<and> (stream s = None \<longrightarrow> stopCamera s = s)
   \<and> step Stop (step Stop s) = step Stop s
   \<and> step (Capture env) (step Stop s) = step Stop s
   \<and> capturedImages (step (Capture env) (step Stop s)) = capturedImages s"
  by (simp add: stopCamera_def step_def captureImage_def commit_def render_def cleanup_def
      split: option.splits)

theorem stop_idempotent_then_capture_noop_witness:
  "stream initialState = None \<and> stopCamera initialState = initialState
   \<and> stream exampleState \<noteq> None
   \<and> step Stop (step Stop exampleState) = step Stop exampleState
   \<and> capturedImages (step (Capture exampleEnv) (step Stop exampleState))
       = capturedImages exampleState"
proof -
  have a: "stream initialState = None" by (simp add: initialState_def)
  have b: "stream exampleState \<noteq> None" by (simp add: exampleState_def)
  from stop_idempotent_then_capture_noop [of initialState exampleEnv]
    stop_idempotent_then_capture_noop [of exampleState exampleEnv] a b
  show ?thesis by blast
qed

text \<open>
  Claim C10. \<open>stopCamera\<close> leaves the gallery and the error as they were, as a
  handler and as an event of the page (with the render and the effects after it).
\<close>

theorem stop_changes_only_session:
  "capturedImages (stopCamera s) = capturedImages s
   \<and> error (stopCamera s) = error s
   \<and> capturedImages (step Stop s) = capturedImages s
   \<and> error (step Stop s) = error s"
  by (simp add: stopCamera_def step_def split: option.splits)

theorem stop_changes_only_session_witness:
  "capturedImages (step Stop exampleState) = capturedImages exampleState
   \<and> error (step Stop exampleState) = error exampleState
   \<and> stream (step Stop exampleState) = None"
  using stop_changes_only_session [of exampleState]
  by (simp add: step_def stopCamera_def exampleState_def)

subsection \<open>The scenario of a session\<close>

text \<open>
  Claim C8, as the code has it. In the scenario (start succeeds, two captures, the
  first image of the gallery is toggled, the selection is deleted), if both captures
  obtain a 2D context and read different values of \<open>Date.now()\<close> for their ids, the
  gallery holds exactly the second captured image, and its \<open>selected\<close> flag is false.
\<close>

theorem scenario_keeps_second_image:
  assumes "context2d e1" and "context2d e2" and "nowId e1 \<noteq> nowId e2"
  shows "capturedImages (scenario m e1 e2) = [newImage e2]
    \<and> selected (newImage e2) = False"
proof -
  from assms(3) have "id_img (newImage e2) \<noteq> id_img (newImage e1)"
    by (auto dest: id_img_newImage_inj)
  moreover have "selected (newImage e1) = False" "selected (newImage e2) = False"
    by (simp_all add: newImage_def)
  ultimately show ?thesis using assms(1,2)
    by (simp add: scenario_def Let_def step_def initialState_def startCamera_begin_def
        startCamera_resolved_def captureImage_def toggleImageSelection_def
        deleteSelectedImages_def)
qed

theorem scenario_keeps_second_image_witness:
  "context2d exampleEnv \<and> context2d exampleEnvLater
   \<and> nowId exampleEnv \<noteq> nowId exampleEnvLater
   \<and> capturedImages (scenario exampleStream exampleEnv exampleEnvLater)
       = [newImage exampleEnvLater]
   \<and> selected (newImage exampleEnvLater) = False"
proof -
  have a: "context2d exampleEnv" and b: "context2d exampleEnvLater"
    and c: "nowId exampleEnv \<noteq> nowId exampleEnvLater"
    by (simp_all add: exampleEnv_def exampleEnvLater_def)
  from scenario_keeps_second_image [OF a b c, of exampleStream] a b c
  show ?thesis by blast
qed

text \<open>
  Claim C8 as stated fails. When the two captures read the same value of
  \<open>Date.now()\<close>, both images have the id of the first one: the toggle selects both and
  the deletion removes both, so the gallery is empty.
\<close>

theorem scenario_same_tick_empties_gallery:
  "capturedImages (scenario exampleStream exampleEnv exampleEnvSameTick) = []
   \<and> capturedImages (scenario exampleStream exampleEnv exampleEnvSameTick)
       \<noteq> [newImage exampleEnvSameTick]"
  by (simp add: scenario_def Let_def step_def initialState_def startCamera_begin_def
        startCamera_resolved_def captureImage_def toggleImageSelection_def
        deleteSelectedImages_def newImage_def exampleEnv_def exampleEnvSameTick_def)

end
